theory Spec2Isabelle
  imports Complex_Main "HOL-Library.Word"
begin

text \<open>
  A shallow embedding of \<^verbatim>\<open>src/proxy.ts\<close> of stay-fresh-lsp-proxy: the frame encoder
  \<^verbatim>\<open>encodeMessage\<close>, the configuration \<^verbatim>\<open>config\<close>, the diagnostic filter
  \<^verbatim>\<open>filterDiagnostics\<close> and the stream parser \<^verbatim>\<open>MessageParser\<close>.

  Conventions. A Buffer is a list of bytes, a byte a \<^typ>\<open>char\<close> (eight bits). A JavaScript
  string is a list of 16-bit code units. A value that \<^verbatim>\<open>JSON.parse\<close> returns is a \<open>json\<close>.
  A function that can throw returns \<open>error + 'a\<close>, \<open>Inl\<close> the exception. Builtins of the
  platform that the source calls and whose result is only passed on (\<^verbatim>\<open>JSON.parse\<close>,
  \<^verbatim>\<open>JSON.stringify\<close>, the conversion of a value that is not a number by \<^verbatim>\<open><=\<close>) are
  parameters of the functions that call them; every theorem holds for all of them. The
  writes of \<^verbatim>\<open>log\<close> to the log file are not modelled; the evaluation of its arguments is,
  where it can throw.
\<close>

section \<open>Bytes and strings\<close>

type_synonym bytes = "char list"

type_synonym jsstring = "16 word list"

text \<open>The code units of a string literal of the source (all of them are ASCII).\<close>

definition str :: "string \<Rightarrow> jsstring" where
  "str s = map (\<lambda>c. of_nat (of_char c)) s"

definition CRLFCRLF :: bytes where
  "CRLFCRLF = [CHR 0x0D, CHR 0x0A, CHR 0x0D, CHR 0x0A]"

definition CONTENT_LENGTH_HEADER :: string where
  "CONTENT_LENGTH_HEADER = ''Content-Length: ''"

section \<open>The frame encoder\<close>

text \<open>
  The decimal digits of a natural number: what the template literal makes of
  \<^verbatim>\<open>body.length\<close>.
\<close>

definition digitChar :: "nat \<Rightarrow> char" where
  "digitChar d = char_of (48 + d)"

function decimal :: "nat \<Rightarrow> string" where
  "decimal n = (if n < 10 then [digitChar n] else decimal (n div 10) @ [digitChar (n mod 10)])"
  by pat_completeness auto
termination
  by (relation "measure id") auto

declare decimal.simps [simp del]

text \<open>
  \<^verbatim>\<open>Buffer.from(s, "utf-8")\<close>: UTF-8 of a string of UTF-16 code units. A surrogate pair is
  one code point of four bytes; a surrogate without its partner becomes U+FFFD.
\<close>

definition encodeCodePoint :: "nat \<Rightarrow> bytes" where
  "encodeCodePoint cp =
     (if cp < 0x80 then [char_of cp]
      else if cp < 0x800 then [char_of (0xC0 + cp div 0x40), char_of (0x80 + cp mod 0x40)]
      else if cp < 0x10000 then
        [char_of (0xE0 + cp div 0x1000), char_of (0x80 + cp div 0x40 mod 0x40),
         char_of (0x80 + cp mod 0x40)]
      else
        [char_of (0xF0 + cp div 0x40000), char_of (0x80 + cp div 0x1000 mod 0x40),
         char_of (0x80 + cp div 0x40 mod 0x40), char_of (0x80 + cp mod 0x40)])"

definition isHighSurrogate :: "16 word \<Rightarrow> bool" where
  "isHighSurrogate u = (0xD800 \<le> u \<and> u \<le> 0xDBFF)"

definition isLowSurrogate :: "16 word \<Rightarrow> bool" where
  "isLowSurrogate u = (0xDC00 \<le> u \<and> u \<le> 0xDFFF)"

fun utf8Encode :: "jsstring \<Rightarrow> bytes" where
  "utf8Encode [] = []"
| "utf8Encode (u # us) =
     (if isHighSurrogate u then
        (case us of
           [] \<Rightarrow> encodeCodePoint 0xFFFD
         | v # vs \<Rightarrow>
             if isLowSurrogate v
             then encodeCodePoint (0x10000 + (unat u - 0xD800) * 0x400 + (unat v - 0xDC00)) @ utf8Encode vs
             else encodeCodePoint 0xFFFD @ utf8Encode us)
      else if isLowSurrogate u then encodeCodePoint 0xFFFD @ utf8Encode us
      else encodeCodePoint (unat u) @ utf8Encode us)"

text \<open>
  \<^verbatim>\<open>encodeMessage\<close>. \<open>stringify\<close> stands for \<^verbatim>\<open>JSON.stringify\<close>. The header consists of
  ASCII characters, which \<^verbatim>\<open>Buffer.from(header, "ascii")\<close> turns into the same bytes.
\<close>

definition encodeMessage :: "('m \<Rightarrow> jsstring) \<Rightarrow> 'm \<Rightarrow> bytes" where
  "encodeMessage stringify msg =
     (let body = utf8Encode (stringify msg);
          header = CONTENT_LENGTH_HEADER @ decimal (length body) @ CRLFCRLF
      in header @ body)"

section \<open>The configuration\<close>

text \<open>
  A JavaScript number, by its value: \<open>Num q\<close> is a finite number. \<open>numLE\<close> is \<^verbatim>\<open><=\<close> on
  numbers, false when a side is \<open>NaN\<close>.
\<close>

datatype number = NaN | NegInf | Num rat | PosInf

fun numLE :: "number \<Rightarrow> number \<Rightarrow> bool" where
  "numLE NaN y = False"
| "numLE x NaN = False"
| "numLE NegInf y = True"
| "numLE x PosInf = True"
| "numLE PosInf y = False"
| "numLE x NegInf = False"
| "numLE (Num a) (Num b) = (a \<le> b)"

text \<open>
  The JavaScript number of a non-negative integer: the integer itself when 53 bits hold
  it, else the nearest number with 53 significant bits, a tie going to the even one, and
  \<open>PosInf\<close> when that is not below \<open>2^1024\<close>.
\<close>

function bitLength :: "int \<Rightarrow> nat" where
  "bitLength n = (if n \<le> 0 then 0 else Suc (bitLength (n div 2)))"
  by pat_completeness auto
termination
  by (relation "measure nat") auto

declare bitLength.simps [simp del]

definition numberOfInt :: "int \<Rightarrow> number" where
  "numberOfInt n =
     (let e = bitLength n - 53;
          q = n div 2 ^ e;
          r = n mod 2 ^ e;
          m = (if 2 ^ e < 2 * r \<or> (2 * r = 2 ^ e \<and> odd q) then q + 1 else q)
      in if m * 2 ^ e < 2 ^ 1024 then Num (of_int (m * 2 ^ e)) else PosInf)"

fun negateNumber :: "number \<Rightarrow> number" where
  "negateNumber NaN = NaN"
| "negateNumber NegInf = PosInf"
| "negateNumber (Num q) = Num (- q)"
| "negateNumber PosInf = NegInf"

text \<open>
  \<^verbatim>\<open>parseInt(s, 10)\<close>: white space is skipped, then a sign, then the longest run of decimal
  digits is read; \<open>NaN\<close> when there is no digit, else the JavaScript number of the integer
  that the digits denote, with the sign. (Node rounds the exact integer, however many
  digits there are.)
\<close>

definition isStrWhiteSpace :: "16 word \<Rightarrow> bool" where
  "isStrWhiteSpace u =
     (u \<in> set [0x09, 0x0A, 0x0B, 0x0C, 0x0D, 0x20, 0xA0, 0x1680, 0x2028, 0x2029, 0x202F, 0x205F,
                0x3000, 0xFEFF]
      \<or> (0x2000 \<le> u \<and> u \<le> 0x200A))"

definition isDecimalDigit :: "16 word \<Rightarrow> bool" where
  "isDecimalDigit u = (0x30 \<le> u \<and> u \<le> 0x39)"

definition digitsValue :: "jsstring \<Rightarrow> int" where
  "digitsValue ds = foldl (\<lambda>acc u. 10 * acc + (uint u - 0x30)) 0 ds"

definition parseInt10 :: "jsstring \<Rightarrow> number" where
  "parseInt10 s =
     (let t = dropWhile isStrWhiteSpace s;
          negative = (case t of [] \<Rightarrow> False | u # _ \<Rightarrow> u = 0x2D);
          r = (case t of [] \<Rightarrow> [] | u # us \<Rightarrow> if u = 0x2B \<or> u = 0x2D then us else t);
          z = takeWhile isDecimalDigit r
      in if z = [] then NaN
         else if negative then negateNumber (numberOfInt (digitsValue z))
         else numberOfInt (digitsValue z))"

text \<open>
  The constant \<^verbatim>\<open>config\<close>, as a function of the environment: \<open>env k\<close> is
  \<^verbatim>\<open>process.env[k]\<close>, \<open>None\<close> for \<^verbatim>\<open>undefined\<close>. The operator \<^verbatim>\<open>||\<close> takes its right side
  when the left is \<^verbatim>\<open>undefined\<close> or the empty string.
\<close>

record config =
  dropAll :: bool
  minSeverity :: number
  debug :: bool

definition resolveConfig :: "(string \<Rightarrow> jsstring option) \<Rightarrow> config" where
  "resolveConfig env =
     \<lparr>dropAll = (env ''STAY_FRESH_DROP_DIAGNOSTICS'' \<noteq> Some (str ''false'')),
      minSeverity =
        parseInt10 (case env ''STAY_FRESH_MIN_SEVERITY'' of
                      None \<Rightarrow> str ''1''
                    | Some s \<Rightarrow> if s = [] then str ''1'' else s),
      debug = (env ''STAY_FRESH_LOG'' = Some (str ''true''))\<rparr>"

section \<open>The diagnostic filter\<close>

text \<open>
  What \<^verbatim>\<open>JSON.parse\<close> returns. The members of an object are listed in the order of its
  properties, every key once.
\<close>

datatype json =
    JNull
  | JBool bool
  | JNum number
  | JStr jsstring
  | JArr "json list"
  | JObj "(jsstring \<times> json) list"

datatype error = TypeError

definition PUBLISH_DIAGNOSTICS :: jsstring where
  "PUBLISH_DIAGNOSTICS = str ''textDocument/publishDiagnostics''"

text \<open>
  A template literal converts the value it holds to a string. The conversion of a parsed
  JSON value throws a TypeError in one case only: an object with a member \<^verbatim>\<open>toString\<close> of
  its own has no callable \<^verbatim>\<open>toString\<close>, and \<^verbatim>\<open>valueOf\<close> gives no primitive value; an array
  converts each of its elements but \<^verbatim>\<open>null\<close>. \<open>templateString v\<close> is the evaluation
  of a template literal that holds \<open>v\<close>, \<open>None\<close> being \<^verbatim>\<open>undefined\<close>; the text itself only goes to the log.
\<close>

fun toStringThrows :: "json \<Rightarrow> bool" where
  "toStringThrows (JObj kvs) = (str ''toString'' \<in> fst ` set kvs)"
| "toStringThrows (JArr xs) = (\<exists>x \<in> set xs. toStringThrows x)"
| "toStringThrows v = False"

definition templateString :: "json option \<Rightarrow> error + unit" where
  "templateString v =
     (case v of
        None \<Rightarrow> Inr ()
      | Some j \<Rightarrow> if toStringThrows j then Inl TypeError else Inr ())"

text \<open>
  \<^verbatim>\<open>{...obj, k: v}\<close>: the properties of \<open>obj\<close> in their order, with \<open>k\<close> set to \<open>v\<close> where
  it stands, or added last.
\<close>

fun setProp :: "jsstring \<Rightarrow> json \<Rightarrow> (jsstring \<times> json) list \<Rightarrow> (jsstring \<times> json) list" where
  "setProp k v [] = [(k, v)]"
| "setProp k v (p # ps) = (if fst p = k then (k, v) # ps else p # setProp k v ps)"

text \<open>
  The callback of \<^verbatim>\<open>filter\<close>:
  \<^verbatim>\<open>(d) => { const severity = d.severity ?? 1; return severity <= config.minSeverity; }\<close>.
  Reading a property of \<^verbatim>\<open>null\<close> throws; a value that is not an object has no property
  \<^verbatim>\<open>severity\<close>; \<^verbatim>\<open>??\<close> replaces \<^verbatim>\<open>undefined\<close> and \<^verbatim>\<open>null\<close>. \<open>toNumber\<close> stands for the
  conversion that \<^verbatim>\<open><=\<close> applies to a left operand that is not a number.
\<close>

fun keepDiagnostic :: "(json \<Rightarrow> error + number) \<Rightarrow> number \<Rightarrow> json \<Rightarrow> error + bool" where
  "keepDiagnostic toNumber t JNull = Inl TypeError"
| "keepDiagnostic toNumber t d =
     (case (case d of JObj kvs \<Rightarrow> map_of kvs (str ''severity'') | _ \<Rightarrow> None) of
        None \<Rightarrow> Inr (numLE (Num 1) t)
      | Some JNull \<Rightarrow> Inr (numLE (Num 1) t)
      | Some (JNum x) \<Rightarrow> Inr (numLE x t)
      | Some v \<Rightarrow> (case toNumber v of Inl e \<Rightarrow> Inl e | Inr x \<Rightarrow> Inr (numLE x t)))"

text \<open>
  \<^verbatim>\<open>Array.prototype.filter\<close> with a callback that can throw: the elements are visited in
  order, the first exception ends the call.
\<close>

fun arrayFilter :: "('a \<Rightarrow> error + bool) \<Rightarrow> 'a list \<Rightarrow> error + 'a list" where
  "arrayFilter f [] = Inr []"
| "arrayFilter f (x # xs) =
     (case f x of
        Inl e \<Rightarrow> Inl e
      | Inr keep \<Rightarrow>
          (case arrayFilter f xs of
             Inl e \<Rightarrow> Inl e
           | Inr ys \<Rightarrow> Inr (if keep then x # ys else ys)))"

text \<open>
  \<^verbatim>\<open>filterDiagnostics\<close>; \<open>Inr None\<close> is the result \<^verbatim>\<open>null\<close>. The argument is whatever
  \<^verbatim>\<open>JSON.parse\<close> returned, as \<^verbatim>\<open>startProxy\<close> passes it on unchecked.
  \<^item> \<^verbatim>\<open>msg.method\<close> throws when \<open>msg\<close> is \<^verbatim>\<open>null\<close>, and is \<^verbatim>\<open>undefined\<close> when \<open>msg\<close> is not
    an object (first and last equation).
  \<^item> With \<^verbatim>\<open>dropAll\<close>, the argument of \<^verbatim>\<open>log\<close> is evaluated, \<^verbatim>\<open>params?.uri\<close> in a template
    literal, before \<^verbatim>\<open>null\<close> is returned.
  \<^item> Otherwise \<^verbatim>\<open>params.diagnostics.filter(...)\<close> throws a TypeError unless \<open>params\<close> is an
    object whose \<^verbatim>\<open>diagnostics\<close> is an array: \<^verbatim>\<open>params\<close> is \<^verbatim>\<open>undefined\<close> or \<^verbatim>\<open>null\<close>, or
    has no \<^verbatim>\<open>diagnostics\<close>, or \<^verbatim>\<open>diagnostics\<close> is \<^verbatim>\<open>null\<close>, or a value without a callable
    \<^verbatim>\<open>filter\<close> (no parsed JSON value but an array has one). Then the arguments of
    \<^verbatim>\<open>log\<close> are evaluated, and the copy of \<open>msg\<close> is built.
\<close>

fun filterDiagnostics :: "(json \<Rightarrow> error + number) \<Rightarrow> config \<Rightarrow> json \<Rightarrow> error + json option" where
  "filterDiagnostics toNumber config JNull = Inl TypeError"
| "filterDiagnostics toNumber config (JObj msg) =
     (if map_of msg (str ''method'') \<noteq> Some (JStr PUBLISH_DIAGNOSTICS) then Inr (Some (JObj msg))
      else if dropAll config then
        (case templateString
                (case map_of msg (str ''params'') of
                   Some (JObj params) \<Rightarrow> map_of params (str ''uri'')
                 | _ \<Rightarrow> None) of
           Inl e \<Rightarrow> Inl e
         | Inr _ \<Rightarrow> Inr None)
      else
        (case map_of msg (str ''params'') of
           Some (JObj params) \<Rightarrow>
             (case map_of params (str ''diagnostics'') of
                Some (JArr diagnostics) \<Rightarrow>
                  (case arrayFilter (keepDiagnostic toNumber (minSeverity config)) diagnostics of
                     Inl e \<Rightarrow> Inl e
                   | Inr filtered \<Rightarrow>
                       (case templateString (map_of params (str ''uri'')) of
                          Inl e \<Rightarrow> Inl e
                        | Inr _ \<Rightarrow>
                            Inr (Some (JObj (setProp (str ''params'')
                                  (JObj (setProp (str ''diagnostics'') (JArr filtered) params)) msg)))))
              | _ \<Rightarrow> Inl TypeError)
         | _ \<Rightarrow> Inl TypeError))"
| "filterDiagnostics toNumber config msg = Inr (Some msg)"

section \<open>The stream parser\<close>

text \<open>\<^verbatim>\<open>Buffer.indexOf\<close>: the first index at which the pattern occurs, \<open>None\<close> for -1.\<close>

fun indexOf :: "bytes \<Rightarrow> bytes \<Rightarrow> nat option" where
  "indexOf pat [] = (if pat = [] then Some 0 else None)"
| "indexOf pat (x # xs) =
     (if take (length pat) (x # xs) = pat then Some 0
      else map_option Suc (indexOf pat xs))"

text \<open>
  \<^verbatim>\<open>subarray(0, headerEnd).toString("ascii")\<close>: Node clears the highest bit of every byte
  when it decodes as ascii, so the header block is a string of 7-bit characters.
\<close>

definition toStringAscii :: "bytes \<Rightarrow> string" where
  "toStringAscii bs = map (\<lambda>b. char_of (of_char b mod 128 :: nat)) bs"

text \<open>
  The regular expression \<^verbatim>\<open>/Content-Length:\s*(\d+)/i\<close> on a string of 7-bit characters.
  \<open>isWhite\<close> is \<^verbatim>\<open>\s\<close> below 128, \<open>isDigit\<close> is \<^verbatim>\<open>\d\<close>, \<open>lowerAscii\<close> the case folding
  of the \<^verbatim>\<open>i\<close> flag. \<open>matchHere\<close> is the match anchored at the start of the string and gives
  the capture group; \<^verbatim>\<open>\s*\<close> and \<^verbatim>\<open>\d+\<close> are greedy, and giving back white space never
  helps, as no white space is a digit. \<open>matchContentLength\<close> is \<^verbatim>\<open>String.match\<close>: the
  leftmost position at which the anchored match succeeds.
\<close>

definition isWhite :: "char \<Rightarrow> bool" where
  "isWhite c = (c \<in> set [CHR 0x09, CHR 0x0A, CHR 0x0B, CHR 0x0C, CHR 0x0D, CHR 0x20])"

definition isDigit :: "char \<Rightarrow> bool" where
  "isDigit c = (48 \<le> (of_char c :: nat) \<and> (of_char c :: nat) \<le> 57)"

definition lowerAscii :: "char \<Rightarrow> char" where
  "lowerAscii c =
     (if 65 \<le> (of_char c :: nat) \<and> (of_char c :: nat) \<le> 90 then char_of (of_char c + 32 :: nat) else c)"

definition matchHere :: "string \<Rightarrow> string option" where
  "matchHere s =
     (if map lowerAscii (take 15 s) = ''content-length:''
      then (let digits = takeWhile isDigit (dropWhile isWhite (drop 15 s))
            in if digits = [] then None else Some digits)
      else None)"

fun matchContentLength :: "string \<Rightarrow> string option" where
  "matchContentLength [] = matchHere []"
| "matchContentLength (c # cs) =
     (case matchHere (c # cs) of
        Some digits \<Rightarrow> Some digits
      | None \<Rightarrow> matchContentLength cs)"

text \<open>
  \<^verbatim>\<open>parseInt(match[1], 10)\<close> on the string of decimal digits that the group captured.
  The value is the exact natural number; the JavaScript number is the same for every digit
  string that denotes at most \<open>2^53\<close>, and a Buffer is never longer than that.
\<close>

definition digitVal :: "char \<Rightarrow> nat" where
  "digitVal c = of_char c - 48"

definition parseDigits :: "string \<Rightarrow> nat" where
  "parseDigits ds = foldl (\<lambda>acc c. 10 * acc + digitVal c) 0 ds"

text \<open>The two fields of \<^verbatim>\<open>class MessageParser\<close>; \<open>None\<close> is \<^verbatim>\<open>null\<close>.\<close>

record parser =
  buffer :: bytes
  contentLength :: "nat option"

definition newParser :: parser where
  "newParser = \<lparr>buffer = [], contentLength = None\<rparr>"

text \<open>An occurrence lies inside the buffer: the loop consumes bytes whenever it goes on.\<close>

lemma indexOf_bound: "indexOf pat bs = Some i \<Longrightarrow> i + length pat \<le> length bs"
proof (induction bs arbitrary: i)
  case Nil
  then show ?case by (simp split: if_splits)
next
  case (Cons x xs)
  show ?case
  proof (cases "take (length pat) (x # xs) = pat")
    case True
    then have "length pat \<le> length (x # xs)"
      by (metis length_take min.cobounded1)
    with True Cons.prems show ?thesis by simp
  next
    case False
    with Cons.prems obtain j where "indexOf pat xs = Some j" "i = Suc j"
      by auto
    with Cons.IH show ?thesis by simp
  qed
qed

text \<open>
  \<^verbatim>\<open>MessageParser.drain\<close>. \<open>jsonParse\<close> stands for
  \<^verbatim>\<open>JSON.parse(bytes.toString("utf-8"))\<close>, \<open>None\<close> when it throws. The result is the list of
  the messages handed to \<^verbatim>\<open>onMessage\<close>, in the order of the calls, and the parser after the
  loop has returned. An exception of the callback is caught by the same \<^verbatim>\<open>try\<close> and leaves
  the parser as it is. A recursive call is the next round of \<^verbatim>\<open>while (true)\<close>; after a
  header with a length the source falls through to the body part of the same round, which
  is the round of a parser whose \<open>contentLength\<close> is set.
\<close>

function drain :: "(bytes \<Rightarrow> 'm option) \<Rightarrow> parser \<Rightarrow> 'm list \<times> parser" where
  "drain jsonParse p =
     (case contentLength p of
        None \<Rightarrow>
          (case indexOf CRLFCRLF (buffer p) of
             None \<Rightarrow> ([], p)
           | Some headerEnd \<Rightarrow>
               (case matchContentLength (toStringAscii (take headerEnd (buffer p))) of
                  None \<Rightarrow> drain jsonParse (p\<lparr>buffer := drop (headerEnd + 4) (buffer p)\<rparr>)
                | Some digits \<Rightarrow>
                    drain jsonParse (p\<lparr>contentLength := Some (parseDigits digits),
                                       buffer := drop (headerEnd + 4) (buffer p)\<rparr>)))
      | Some n \<Rightarrow>
          (if length (buffer p) < n then ([], p)
           else (case drain jsonParse (p\<lparr>buffer := drop n (buffer p), contentLength := None\<rparr>) of
                   (ms, p') \<Rightarrow>
                     (case jsonParse (take n (buffer p)) of
                        Some m \<Rightarrow> (m # ms, p')
                      | None \<Rightarrow> (ms, p')))))"
  by pat_completeness auto
termination
proof (relation "measure (\<lambda>(jsonParse, p). 2 * length (buffer p) + (if contentLength p = None then 0 else 1))")
  show "wf (measure (\<lambda>(jsonParse :: bytes \<Rightarrow> 'm option, p). 2 * length (buffer p) + (if contentLength p = None then 0 else 1)))"
    by simp
next
  fix jsonParse :: "bytes \<Rightarrow> 'm option" and p :: parser and headerEnd
  assume "contentLength p = None" "indexOf CRLFCRLF (buffer p) = Some headerEnd"
  then have "headerEnd + 4 \<le> length (buffer p)"
    using indexOf_bound [of CRLFCRLF "buffer p" headerEnd] by (simp add: CRLFCRLF_def)
  then show "((jsonParse, p\<lparr>buffer := drop (headerEnd + 4) (buffer p)\<rparr>), jsonParse, p)
      \<in> measure (\<lambda>(jsonParse, p). 2 * length (buffer p) + (if contentLength p = None then 0 else 1))"
    using \<open>contentLength p = None\<close> by simp
next
  fix jsonParse :: "bytes \<Rightarrow> 'm option" and p :: parser and headerEnd digits
  assume "contentLength p = None" "indexOf CRLFCRLF (buffer p) = Some headerEnd"
  then have "headerEnd + 4 \<le> length (buffer p)"
    using indexOf_bound [of CRLFCRLF "buffer p" headerEnd] by (simp add: CRLFCRLF_def)
  then show "((jsonParse, p\<lparr>contentLength := Some (parseDigits digits),
                            buffer := drop (headerEnd + 4) (buffer p)\<rparr>), jsonParse, p)
      \<in> measure (\<lambda>(jsonParse, p). 2 * length (buffer p) + (if contentLength p = None then 0 else 1))"
    by simp
next
  fix jsonParse :: "bytes \<Rightarrow> 'm option" and p :: parser and n
  assume "contentLength p = Some n"
  then show "((jsonParse, p\<lparr>buffer := drop n (buffer p), contentLength := None\<rparr>), jsonParse, p)
      \<in> measure (\<lambda>(jsonParse, p). 2 * length (buffer p) + (if contentLength p = None then 0 else 1))"
    by simp
qed

declare drain.simps [simp del]

text \<open>\<^verbatim>\<open>MessageParser.feed\<close>: append the chunk, then drain.\<close>

definition feed :: "(bytes \<Rightarrow> 'm option) \<Rightarrow> parser \<Rightarrow> bytes \<Rightarrow> 'm list \<times> parser" where
  "feed jsonParse p chunk = drain jsonParse (p\<lparr>buffer := buffer p @ chunk\<rparr>)"

text \<open>
  The data handler of \<^verbatim>\<open>child.stdout\<close> calls \<open>feed\<close> once for every chunk, on the same
  parser: the messages of all the calls, in order, and the parser after the last one.
\<close>

fun feedAll :: "(bytes \<Rightarrow> 'm option) \<Rightarrow> parser \<Rightarrow> bytes list \<Rightarrow> 'm list \<times> parser" where
  "feedAll jsonParse p [] = ([], p)"
| "feedAll jsonParse p (chunk # chunks) =
     (case feed jsonParse p chunk of
        (ms, p') \<Rightarrow>
          (case feedAll jsonParse p' chunks of
             (ms', p'') \<Rightarrow> (ms @ ms', p'')))"

section \<open>Notions of the statements\<close>

text \<open>
  A frame on the wire: a header block, the blank line, the body. A frame is complete for
  the parser when the blank line that ends its header block is the first one in it, and the
  length that the parser reads from the header block is the length of the body.
  \<open>headerLength\<close> is that reading, lines 119 to 127 of the source.
\<close>

definition frame :: "bytes \<Rightarrow> bytes \<Rightarrow> bytes" where
  "frame hdr body = hdr @ CRLFCRLF @ body"

definition headerLength :: "bytes \<Rightarrow> nat option" where
  "headerLength hdr = map_option parseDigits (matchContentLength (toStringAscii hdr))"

definition completeFrame :: "bytes \<times> bytes \<Rightarrow> bool" where
  "completeFrame f =
     (indexOf CRLFCRLF (fst f @ CRLFCRLF) = Some (length (fst f)) \<and>
      headerLength (fst f) = Some (length (snd f)))"

definition frameBytes :: "bytes \<times> bytes \<Rightarrow> bytes" where
  "frameBytes f = frame (fst f) (snd f)"

definition emitted :: "'m option \<Rightarrow> 'm list" where
  "emitted r = (case r of Some m \<Rightarrow> [m] | None \<Rightarrow> [])"

text \<open>
  A publish-diagnostics message is an object whose \<^verbatim>\<open>method\<close> is the name of the
  notification. \<open>paramsOf\<close>, \<open>uriOf\<close> and \<open>diagnosticsOf\<close> read its payload: the object
  \<^verbatim>\<open>params\<close>, its \<^verbatim>\<open>uri\<close>, and its \<^verbatim>\<open>diagnostics\<close> when that is an array.
  \<open>severityOf\<close> is the severity of a diagnostic, 1 when there is none. \<open>severityTyped\<close>
  holds of a diagnostic that is not \<^verbatim>\<open>null\<close> and whose \<^verbatim>\<open>severity\<close>, when there is one, is a
  number (or \<^verbatim>\<open>null\<close>), as \<^verbatim>\<open>interface Diagnostic\<close> declares. \<open>withDiagnostics msg ds\<close> is
  \<open>msg\<close> with the diagnostics of its payload replaced by \<open>ds\<close>.
\<close>

definition isPublishDiagnostics :: "json \<Rightarrow> bool" where
  "isPublishDiagnostics msg =
     (case msg of JObj kvs \<Rightarrow> map_of kvs (str ''method'') = Some (JStr PUBLISH_DIAGNOSTICS) | _ \<Rightarrow> False)"

definition paramsOf :: "json \<Rightarrow> (jsstring \<times> json) list option" where
  "paramsOf msg =
     (case msg of
        JObj kvs \<Rightarrow> (case map_of kvs (str ''params'') of Some (JObj params) \<Rightarrow> Some params | _ \<Rightarrow> None)
      | _ \<Rightarrow> None)"

definition uriOf :: "json \<Rightarrow> json option" where
  "uriOf msg = (case paramsOf msg of Some params \<Rightarrow> map_of params (str ''uri'') | None \<Rightarrow> None)"

definition diagnosticsOf :: "json \<Rightarrow> json list option" where
  "diagnosticsOf msg =
     (case paramsOf msg of
        Some params \<Rightarrow> (case map_of params (str ''diagnostics'') of Some (JArr ds) \<Rightarrow> Some ds | _ \<Rightarrow> None)
      | None \<Rightarrow> None)"

definition severityOf :: "json \<Rightarrow> number" where
  "severityOf d =
     (case d of
        JObj kvs \<Rightarrow> (case map_of kvs (str ''severity'') of Some (JNum x) \<Rightarrow> x | _ \<Rightarrow> Num 1)
      | _ \<Rightarrow> Num 1)"

definition severityTyped :: "json \<Rightarrow> bool" where
  "severityTyped d =
     (case d of
        JNull \<Rightarrow> False
      | JObj kvs \<Rightarrow>
          (case map_of kvs (str ''severity'') of
             None \<Rightarrow> True | Some JNull \<Rightarrow> True | Some (JNum x) \<Rightarrow> True | Some _ \<Rightarrow> False)
      | _ \<Rightarrow> True)"

definition withDiagnostics :: "json \<Rightarrow> json list \<Rightarrow> json" where
  "withDiagnostics msg ds =
     (case msg of
        JObj kvs \<Rightarrow>
          JObj (setProp (str ''params'')
                  (JObj (setProp (str ''diagnostics'') (JArr ds) (case paramsOf msg of Some ps \<Rightarrow> ps | None \<Rightarrow> []))) kvs)
      | _ \<Rightarrow> msg)"

text \<open>
  Sample values: an environment that sets the minimum severity alone, a configuration, a
  conversion to a number that always throws, a diagnostic of a given severity, a
  notification.
\<close>

definition minSeverityEnv :: "jsstring \<Rightarrow> string \<Rightarrow> jsstring option" where
  "minSeverityEnv v = [''STAY_FRESH_MIN_SEVERITY'' \<mapsto> v]"

definition sampleConfig :: "bool \<Rightarrow> number \<Rightarrow> config" where
  "sampleConfig d t = \<lparr>dropAll = d, minSeverity = t, debug = False\<rparr>"

definition throwingToNumber :: "json \<Rightarrow> error + number" where
  "throwingToNumber v = Inl TypeError"

definition diagnostic :: "rat \<Rightarrow> json" where
  "diagnostic s = JObj [(str ''severity'', JNum (Num s)), (str ''message'', JStr (str ''m''))]"

definition publish :: "json list \<Rightarrow> json" where
  "publish ds =
     JObj [(str ''jsonrpc'', JStr (str ''2.0'')),
           (str ''method'', JStr PUBLISH_DIAGNOSTICS),
           (str ''params'', JObj [(str ''uri'', JStr (str ''file:///a.ts'')), (str ''diagnostics'', JArr ds)])]"

lemmas sample_defs = sampleConfig_def diagnostic_def publish_def isPublishDiagnostics_def
  uriOf_def paramsOf_def diagnosticsOf_def templateString_def str_def PUBLISH_DIAGNOSTICS_def
  severityTyped_def severityOf_def withDiagnostics_def

section \<open>Properties of the stream parser\<close>

lemma take_append_le: "n \<le> length xs \<Longrightarrow> take n (xs @ ys) = take n xs"
  by simp

lemma indexOf_append: "indexOf pat bs = Some i \<Longrightarrow> indexOf pat (bs @ cs) = Some i"
proof (induction bs arbitrary: i)
  case Nil
  then show ?case by (cases cs) (simp_all split: if_splits)
next
  case (Cons x xs)
  show ?case
  proof (cases "take (length pat) (x # xs) = pat")
    case True
    then have "length pat \<le> length (x # xs)"
      by (metis length_take min.cobounded1)
    then have "take (length pat) ((x # xs) @ cs) = take (length pat) (x # xs)"
      by (rule take_append_le)
    with True have t: "take (length pat) (x # xs @ cs) = pat"
      by (metis append_Cons)
    from Cons.prems True have "i = 0" by simp
    then show ?thesis by (simp only: append_Cons indexOf.simps t) simp
  next
    case False
    with Cons.prems obtain j where j: "indexOf pat xs = Some j" "i = Suc j"
      by auto
    then have "j + length pat \<le> length xs" by (simp add: indexOf_bound)
    then have "length pat \<le> length (x # xs)" by simp
    then have "take (length pat) ((x # xs) @ cs) = take (length pat) (x # xs)"
      by (rule take_append_le)
    with False have t: "take (length pat) (x # xs @ cs) \<noteq> pat"
      by (metis append_Cons)
    have "indexOf pat (xs @ cs) = Some j" using j(1) by (rule Cons.IH)
    then show ?thesis using j(2) t by (simp only: append_Cons indexOf.simps) simp
  qed
qed

lemma drain_append:
  "drain d (p\<lparr>buffer := buffer p @ c\<rparr>) =
     (fst (drain d p) @ fst (drain d ((snd (drain d p))\<lparr>buffer := buffer (snd (drain d p)) @ c\<rparr>)),
      snd (drain d ((snd (drain d p))\<lparr>buffer := buffer (snd (drain d p)) @ c\<rparr>)))"
proof (induction d p rule: drain.induct)
  case (1 d p)
  show ?case
  proof (cases "contentLength p")
    case None
    show ?thesis
    proof (cases "indexOf CRLFCRLF (buffer p)")
      case N2: None
      with None have r: "drain d p = ([], p)" by (subst drain.simps) simp
      show ?thesis unfolding r by simp
    next
      case (Some h)
      then have b: "h + 4 \<le> length (buffer p)"
        using indexOf_bound [of CRLFCRLF "buffer p" h] by (simp add: CRLFCRLF_def)
      have i: "indexOf CRLFCRLF (buffer p @ c) = Some h"
        using Some by (rule indexOf_append)
      show ?thesis
      proof (cases "matchContentLength (toStringAscii (take h (buffer p)))")
        case N3: None
        have l: "drain d (p\<lparr>buffer := buffer p @ c\<rparr>) = drain d (p\<lparr>buffer := drop (h + 4) (buffer p) @ c\<rparr>)"
          using None i N3 b by (subst drain.simps) simp
        have r: "drain d p = drain d (p\<lparr>buffer := drop (h + 4) (buffer p)\<rparr>)"
          using None Some N3 by (subst drain.simps) simp
        show ?thesis
          using "1.IH"(1) [OF None Some N3] unfolding l r by simp
      next
        case S3: (Some ds)
        have l: "drain d (p\<lparr>buffer := buffer p @ c\<rparr>) =
                 drain d (p\<lparr>contentLength := Some (parseDigits ds), buffer := drop (h + 4) (buffer p) @ c\<rparr>)"
          using None i S3 b by (subst drain.simps) simp
        have r: "drain d p = drain d (p\<lparr>contentLength := Some (parseDigits ds), buffer := drop (h + 4) (buffer p)\<rparr>)"
          using None Some S3 by (subst drain.simps) simp
        show ?thesis
          using "1.IH"(2) [OF None Some S3] unfolding l r by simp
      qed
    qed
  next
    case (Some n)
    show ?thesis
    proof (cases "length (buffer p) < n")
      case True
      with Some have r: "drain d p = ([], p)" by (subst drain.simps) simp
      show ?thesis unfolding r by simp
    next
      case False
      let ?q = "p\<lparr>buffer := drop n (buffer p), contentLength := None\<rparr>"
      let ?qc = "p\<lparr>buffer := drop n (buffer p) @ c, contentLength := None\<rparr>"
      let ?k = "\<lambda>r :: 'a list \<times> parser.
                  (case d (take n (buffer p)) of Some m \<Rightarrow> (m # fst r, snd r) | None \<Rightarrow> r)"
      have l: "drain d (p\<lparr>buffer := buffer p @ c\<rparr>) = ?k (drain d ?qc)"
        using Some False by (subst drain.simps) (simp add: case_prod_beta split: option.splits)
      have r: "drain d p = ?k (drain d ?q)"
        using Some False by (subst drain.simps) (simp add: case_prod_beta split: option.splits)
      have q: "?q\<lparr>buffer := buffer ?q @ c\<rparr> = ?qc" by (cases p) simp
      have ih: "drain d ?qc =
          (fst (drain d ?q) @ fst (drain d ((snd (drain d ?q))\<lparr>buffer := buffer (snd (drain d ?q)) @ c\<rparr>)),
           snd (drain d ((snd (drain d ?q))\<lparr>buffer := buffer (snd (drain d ?q)) @ c\<rparr>)))"
        using "1.IH"(3) [OF Some False] unfolding q .
      show ?thesis
        unfolding l r ih by (simp split: option.splits)
    qed
  qed
qed

lemma drain_idem: "drain d (snd (drain d p)) = ([], snd (drain d p))"
proof (induction d p rule: drain.induct)
  case (1 d p)
  show ?case
  proof (cases "contentLength p")
    case None
    show ?thesis
    proof (cases "indexOf CRLFCRLF (buffer p)")
      case N2: None
      with None have r: "drain d p = ([], p)" by (subst drain.simps) simp
      show ?thesis unfolding r by (simp add: r)
    next
      case (Some h)
      show ?thesis
      proof (cases "matchContentLength (toStringAscii (take h (buffer p)))")
        case N3: None
        have r: "drain d p = drain d (p\<lparr>buffer := drop (h + 4) (buffer p)\<rparr>)"
          using None Some N3 by (subst drain.simps) simp
        show ?thesis
          using "1.IH"(1) [OF None Some N3] unfolding r .
      next
        case S3: (Some ds)
        have r: "drain d p = drain d (p\<lparr>contentLength := Some (parseDigits ds), buffer := drop (h + 4) (buffer p)\<rparr>)"
          using None Some S3 by (subst drain.simps) simp
        show ?thesis
          using "1.IH"(2) [OF None Some S3] unfolding r .
      qed
    qed
  next
    case (Some n)
    show ?thesis
    proof (cases "length (buffer p) < n")
      case True
      with Some have r: "drain d p = ([], p)" by (subst drain.simps) simp
      show ?thesis unfolding r by (simp add: r)
    next
      case False
      let ?q = "p\<lparr>buffer := drop n (buffer p), contentLength := None\<rparr>"
      have r: "snd (drain d p) = snd (drain d ?q)"
        using Some False by (subst drain.simps) (simp add: case_prod_beta split: option.splits)
      show ?thesis
        using "1.IH"(3) [OF Some False] unfolding r .
    qed
  qed
qed

lemma feed_append:
  "feed d p (a @ b) =
     (fst (feed d p a) @ fst (feed d (snd (feed d p a)) b), snd (feed d (snd (feed d p a)) b))"
proof -
  have "p\<lparr>buffer := buffer p @ a @ b\<rparr> = (p\<lparr>buffer := buffer p @ a\<rparr>)\<lparr>buffer := buffer (p\<lparr>buffer := buffer p @ a\<rparr>) @ b\<rparr>"
    by simp
  then show ?thesis
    unfolding feed_def using drain_append [of d "p\<lparr>buffer := buffer p @ a\<rparr>" b] by simp
qed

lemma feed_stable: "drain d (snd (feed d p c)) = ([], snd (feed d p c))"
  unfolding feed_def by (rule drain_idem)

lemma feed_Nil: "drain d p = ([], p) \<Longrightarrow> feed d p [] = ([], p)"
  by (simp add: feed_def)

lemma feedAll_concat:
  "drain d p = ([], p) \<Longrightarrow> feedAll d p chunks = feed d p (concat chunks)"
proof (induction chunks arbitrary: p)
  case Nil
  then show ?case by (simp add: feed_Nil)
next
  case (Cons c cs)
  have "feedAll d (snd (feed d p c)) cs = feed d (snd (feed d p c)) (concat cs)"
    by (rule Cons.IH) (rule feed_stable)
  then show ?case
    by (simp add: feed_append case_prod_beta)
qed

lemma drain_newParser: "drain d newParser = ([], newParser)"
  by (subst drain.simps) (simp add: newParser_def CRLFCRLF_def)

text \<open>
  An instance: a frame and an empty frame in four chunks, cut inside the header, inside
  the blank line and inside the body (the parser of this instance returns the body).
\<close>

lemma feedAll_split_example:
  "feedAll Some newParser
     [''Content-Le'', ''ngth: 2'' @ [CHR 0x0D, CHR 0x0A, CHR 0x0D], [CHR 0x0A] @ ''{'',
      ''}Content-Length: 0'' @ CRLFCRLF] =
   ([''{}'', []], newParser)"
  by code_simp

text \<open>
  C1. Chunk-boundary independence: feeding a byte stream to a fresh parser in chunks, cut
  at arbitrary points, hands the same messages to the callback, in the same order, as
  feeding the whole stream as one chunk, and leaves the parser in the same state. It holds
  for every byte stream, so in particular for every sequence of valid frames.
\<close>

theorem chunk_boundary_independence:
  "feedAll jsonParse newParser chunks = feed jsonParse newParser (concat chunks)"
  by (rule feedAll_concat) (rule drain_newParser)

subsection \<open>Frames\<close>

lemma indexOf_sep_here: "indexOf CRLFCRLF (CRLFCRLF @ rest) = Some 0"
  by (simp add: CRLFCRLF_def)

lemma indexOf_sep_no_CR:
  "CHR 0x0D \<notin> set hdr \<Longrightarrow> indexOf CRLFCRLF (hdr @ CRLFCRLF @ rest) = Some (length hdr)"
proof (induction hdr)
  case Nil
  show ?case by (simp add: CRLFCRLF_def)
next
  case (Cons x xs)
  then have x: "x \<noteq> CHR 0x0D" and ih: "indexOf CRLFCRLF (xs @ CRLFCRLF @ rest) = Some (length xs)"
    by auto
  have "take (length CRLFCRLF) (x # (xs @ CRLFCRLF @ rest)) \<noteq> CRLFCRLF"
    using x by (simp add: CRLFCRLF_def)
  then show ?case using ih by simp
qed

lemma parseDigits_snoc: "parseDigits (ds @ [c]) = 10 * parseDigits ds + digitVal c"
  by (simp add: parseDigits_def)

lemma digitVal_digitChar: "d < 10 \<Longrightarrow> digitVal (digitChar d) = d"
  by (simp add: digitVal_def digitChar_def)

lemma parseDigits_decimal: "parseDigits (decimal n) = n"
proof (induction n rule: decimal.induct)
  case (1 n)
  show ?case
  proof (cases "n < 10")
    case True
    then show ?thesis
      by (subst decimal.simps) (simp add: parseDigits_def digitVal_digitChar)
  next
    case False
    then have "parseDigits (decimal (n div 10)) = n div 10" by (rule "1.IH")
    with False show ?thesis
      by (subst decimal.simps) (simp add: parseDigits_snoc digitVal_digitChar)
  qed
qed

lemma isDigit_digitChar: "d < 10 \<Longrightarrow> isDigit (digitChar d)"
  by (simp add: isDigit_def digitChar_def)

lemma decimal_digits: "c \<in> set (decimal n) \<Longrightarrow> isDigit c"
proof (induction n rule: decimal.induct)
  case (1 n)
  show ?case
  proof (cases "n < 10")
    case True
    with "1.prems" show ?thesis
      by (subst (asm) decimal.simps) (simp add: isDigit_digitChar)
  next
    case False
    with "1.prems" have "c \<in> set (decimal (n div 10)) \<or> c = digitChar (n mod 10)"
      by (subst (asm) decimal.simps) auto
    with False "1.IH" show ?thesis
      by (auto simp: isDigit_digitChar)
  qed
qed

lemma decimal_not_Nil: "decimal n \<noteq> []"
  by (subst decimal.simps) simp

lemma isDigit_not_CR: "isDigit c \<Longrightarrow> c \<noteq> CHR 0x0D"
  by (auto simp: isDigit_def)

lemma isDigit_not_white: "isDigit c \<Longrightarrow> \<not> isWhite c"
  by (auto simp: isDigit_def isWhite_def)

lemma isDigit_ascii: "isDigit c \<Longrightarrow> char_of (of_char c mod 128 :: nat) = c"
proof -
  assume "isDigit c"
  then have "(of_char c :: nat) < 128" by (simp add: isDigit_def)
  then have "(of_char c mod 128 :: nat) = of_char c" by simp
  then show ?thesis by simp
qed

lemma toStringAscii_digits: "(\<And>c. c \<in> set ds \<Longrightarrow> isDigit c) \<Longrightarrow> toStringAscii ds = ds"
  unfolding toStringAscii_def by (induction ds) (simp_all add: isDigit_ascii)

lemma toStringAscii_append: "toStringAscii (a @ b) = toStringAscii a @ toStringAscii b"
  by (simp add: toStringAscii_def)

lemma toStringAscii_header: "toStringAscii CONTENT_LENGTH_HEADER = CONTENT_LENGTH_HEADER"
  by (simp add: toStringAscii_def CONTENT_LENGTH_HEADER_def char_of_eq_iff)

lemma matchHere_header:
  assumes "ds \<noteq> []" and "\<And>c. c \<in> set ds \<Longrightarrow> isDigit c"
  shows "matchHere (CONTENT_LENGTH_HEADER @ ds) = Some ds"
proof -
  obtain x xs where ds: "ds = x # xs" using assms(1) by (cases ds) auto
  have "\<not> isWhite x" using assms(2) ds by (simp add: isDigit_not_white)
  then have w: "dropWhile isWhite ds = ds" by (simp add: ds)
  have t: "takeWhile isDigit ds = ds" using assms(2) by (simp add: takeWhile_eq_all_conv)
  have "map lowerAscii ''Content-Length:'' = ''content-length:''"
    by (simp add: lowerAscii_def char_of_eq_iff)
  then have p: "map lowerAscii (take 15 (CONTENT_LENGTH_HEADER @ ds)) = ''content-length:''"
    by (simp add: CONTENT_LENGTH_HEADER_def)
  have q: "drop 15 (CONTENT_LENGTH_HEADER @ ds) = CHR '' '' # ds"
    by (simp add: CONTENT_LENGTH_HEADER_def)
  have "isWhite (CHR '' '')" by (simp add: isWhite_def)
  then show ?thesis
    unfolding matchHere_def p q using w assms by (simp add: takeWhile_eq_all_conv [THEN iffD2])
qed

lemma match_header:
  assumes "ds \<noteq> []" and "\<And>c. c \<in> set ds \<Longrightarrow> isDigit c"
  shows "matchContentLength (toStringAscii (CONTENT_LENGTH_HEADER @ ds)) = Some ds"
proof -
  have a: "toStringAscii (CONTENT_LENGTH_HEADER @ ds) = CONTENT_LENGTH_HEADER @ ds"
    using assms(2) by (simp add: toStringAscii_append toStringAscii_header toStringAscii_digits)
  obtain c cs where c: "CONTENT_LENGTH_HEADER @ ds = c # cs"
    by (simp add: CONTENT_LENGTH_HEADER_def)
  have "matchHere (c # cs) = Some ds"
    using matchHere_header [OF assms] unfolding c .
  then have "matchContentLength (c # cs) = Some ds" by simp
  then show ?thesis using a c by simp
qed

lemma headerLength_encoded: "headerLength (CONTENT_LENGTH_HEADER @ decimal n) = Some n"
  unfolding headerLength_def
  by (simp add: match_header decimal_not_Nil decimal_digits parseDigits_decimal)

lemma header_no_CR: "CHR 0x0D \<notin> set (CONTENT_LENGTH_HEADER @ decimal n)"
proof -
  have "CHR 0x0D \<notin> set (decimal n)" using decimal_digits isDigit_not_CR by blast
  then show ?thesis by (simp add: CONTENT_LENGTH_HEADER_def)
qed


lemma feed_newParser: "feed d newParser bs = drain d \<lparr>buffer = bs, contentLength = None\<rparr>"
  by (simp add: feed_def newParser_def)

lemma drain_empty: "drain d \<lparr>buffer = [], contentLength = None\<rparr> = ([], newParser)"
  using drain_newParser [of d] by (simp add: newParser_def)

lemma drain_header_ok:
  assumes "indexOf CRLFCRLF (hdr @ CRLFCRLF) = Some (length hdr)"
    and "matchContentLength (toStringAscii hdr) = Some ds"
  shows "drain d \<lparr>buffer = hdr @ CRLFCRLF @ rest, contentLength = None\<rparr> =
         drain d \<lparr>buffer = rest, contentLength = Some (parseDigits ds)\<rparr>"
proof -
  have "indexOf CRLFCRLF ((hdr @ CRLFCRLF) @ rest) = Some (length hdr)"
    using assms(1) by (rule indexOf_append)
  then have i: "indexOf CRLFCRLF (hdr @ CRLFCRLF @ rest) = Some (length hdr)" by simp
  have l: "length CRLFCRLF = 4" by (simp add: CRLFCRLF_def)
  show ?thesis
    by (subst drain.simps) (simp add: i assms(2) l)
qed

lemma drain_header_bad:
  assumes "indexOf CRLFCRLF (hdr @ CRLFCRLF) = Some (length hdr)"
    and "matchContentLength (toStringAscii hdr) = None"
  shows "drain d \<lparr>buffer = hdr @ CRLFCRLF @ rest, contentLength = None\<rparr> =
         drain d \<lparr>buffer = rest, contentLength = None\<rparr>"
proof -
  have "indexOf CRLFCRLF ((hdr @ CRLFCRLF) @ rest) = Some (length hdr)"
    using assms(1) by (rule indexOf_append)
  then have i: "indexOf CRLFCRLF (hdr @ CRLFCRLF @ rest) = Some (length hdr)" by simp
  have l: "length CRLFCRLF = 4" by (simp add: CRLFCRLF_def)
  show ?thesis
    by (subst drain.simps) (simp add: i assms(2) l)
qed

lemma drain_body:
  "drain d \<lparr>buffer = body @ rest, contentLength = Some (length body)\<rparr> =
     (emitted (d body) @ fst (drain d \<lparr>buffer = rest, contentLength = None\<rparr>),
      snd (drain d \<lparr>buffer = rest, contentLength = None\<rparr>))"
  by (subst drain.simps) (simp add: emitted_def case_prod_beta split: option.splits)

lemma drain_frame:
  assumes "completeFrame f"
  shows "drain d \<lparr>buffer = frameBytes f @ rest, contentLength = None\<rparr> =
     (emitted (d (snd f)) @ fst (drain d \<lparr>buffer = rest, contentLength = None\<rparr>),
      snd (drain d \<lparr>buffer = rest, contentLength = None\<rparr>))"
proof -
  from assms obtain ds where
    i: "indexOf CRLFCRLF (fst f @ CRLFCRLF) = Some (length (fst f))" and
    m: "matchContentLength (toStringAscii (fst f)) = Some ds" and
    n: "parseDigits ds = length (snd f)"
    by (auto simp: completeFrame_def headerLength_def)
  have "drain d \<lparr>buffer = fst f @ CRLFCRLF @ snd f @ rest, contentLength = None\<rparr> =
        drain d \<lparr>buffer = snd f @ rest, contentLength = Some (length (snd f))\<rparr>"
    using drain_header_ok [OF i m] n by simp
  then show ?thesis
    by (simp add: frameBytes_def frame_def drain_body)
qed

lemma drain_frames:
  "list_all completeFrame fs \<Longrightarrow>
   drain d \<lparr>buffer = concat (map frameBytes fs) @ rest, contentLength = None\<rparr> =
     (concat (map (\<lambda>f. emitted (d (snd f))) fs) @ fst (drain d \<lparr>buffer = rest, contentLength = None\<rparr>),
      snd (drain d \<lparr>buffer = rest, contentLength = None\<rparr>))"
proof (induction fs)
  case Nil
  show ?case by simp
next
  case (Cons f fs)
  then have f: "completeFrame f" and ih:
    "drain d \<lparr>buffer = concat (map frameBytes fs) @ rest, contentLength = None\<rparr> =
     (concat (map (\<lambda>f. emitted (d (snd f))) fs) @ fst (drain d \<lparr>buffer = rest, contentLength = None\<rparr>),
      snd (drain d \<lparr>buffer = rest, contentLength = None\<rparr>))"
    by simp_all
  show ?case
    using drain_frame [OF f, of d "concat (map frameBytes fs) @ rest"] by (simp add: ih)
qed

lemma feed_frames:
  "list_all completeFrame fs \<Longrightarrow>
   feed d newParser (concat (map frameBytes fs)) = (concat (map (\<lambda>f. emitted (d (snd f))) fs), newParser)"
  using drain_frames [of fs d "[]"] by (simp add: feed_newParser drain_empty)

lemma emitted_all:
  "map (\<lambda>f. d (snd f)) fs = map Some ms \<Longrightarrow> concat (map (\<lambda>f. emitted (d (snd f))) fs) = ms"
proof (induction fs arbitrary: ms)
  case Nil
  then show ?case by simp
next
  case (Cons f fs)
  then obtain m ms' where "ms = m # ms'" "d (snd f) = Some m" "map (\<lambda>f. d (snd f)) fs = map Some ms'"
    by (cases ms) auto
  with Cons.IH show ?case by (simp add: emitted_def)
qed

text \<open>
  C6. Multi-frame draining: one call of \<open>feed\<close> on a chunk that holds any number of complete
  frames, one after the other, with bodies that parse, hands all their messages to the
  callback, in the order of arrival, before it returns, and leaves the parser with an empty
  buffer, waiting for a header. And after any call of \<open>feed\<close>, on any parser and any chunk,
  no complete frame remains: draining again emits nothing and changes nothing.
\<close>

theorem multi_frame_draining:
  assumes "list_all completeFrame fs"
    and "map (\<lambda>f. jsonParse (snd f)) fs = map Some ms"
  shows "feed jsonParse newParser (concat (map frameBytes fs)) = (ms, newParser) \<and>
         drain jsonParse (snd (feed jsonParse p chunk)) = ([], snd (feed jsonParse p chunk))"
  using feed_frames [OF assms(1), of jsonParse] emitted_all [OF assms(2)] feed_stable [of jsonParse p chunk]
  by simp

text \<open>
  Two frames in one chunk, the second with a header in lower case and no space: two
  messages, in order (the parser of this instance returns the body itself).
\<close>

theorem multi_frame_draining_witness:
  "feed Some newParser
     (''Content-Length: 2'' @ CRLFCRLF @ ''{}'' @ ''content-length:3'' @ CRLFCRLF @ ''[1]'') =
   ([''{}'', ''[1]''], newParser)"
proof -
  let ?fs = "[(''Content-Length: 2'', ''{}''), (''content-length:3'', ''[1]'')]"
  have a: "list_all completeFrame ?fs"
    by (simp add: completeFrame_def headerLength_def CRLFCRLF_def toStringAscii_def
        matchHere_def lowerAscii_def isWhite_def isDigit_def parseDigits_def digitVal_def char_of_eq_iff)
  have b: "map (\<lambda>f. Some (snd f)) ?fs = map Some [''{}'', ''[1]'']" by simp
  show ?thesis
    using multi_frame_draining [OF a b, of newParser "[]"]
    by (simp add: frameBytes_def frame_def)
qed

text \<open>
  C7, as stated, fails: the bytes that follow a header block without a length are read as
  the start of the next header block. Here the header \<^verbatim>\<open>Content-Lenth: 19\<close> is discarded,
  its body of 19 bytes, the JSON string \<^verbatim>\<open>"Content-Length: 7"\<close>, is joined to the header of
  the well-formed frame that follows, the leftmost length in that block is 7, and the
  parser waits for seven bytes with the two of \<^verbatim>\<open>{}\<close> in its buffer: the frame that
  follows is not emitted, though it is complete and is emitted when fed alone.
\<close>

theorem corruption_swallows_frame_counterexample:
  "headerLength ''Content-Lenth: 19'' = None \<and>
   completeFrame (''Content-Length: 2'', ''{}'') \<and>
   feed Some newParser (''Content-Length: 2'' @ CRLFCRLF @ ''{}'') = ([''{}''], newParser) \<and>
   feed Some newParser
     (''Content-Lenth: 19'' @ CRLFCRLF @ [CHR 0x22] @ ''Content-Length: 7'' @ [CHR 0x22] @
      ''Content-Length: 2'' @ CRLFCRLF @ ''{}'') =
   ([], \<lparr>buffer = ''{}'', contentLength = Some 7\<rparr>)"
  by code_simp

text \<open>
  C7, amended. A header block with no length field is discarded up through the blank line
  and the parser goes on waiting for a header, with whatever follows the blank line: the
  result is that of feeding the rest alone, so that well-formed frames that start right
  after the blank line are all emitted, in order. A complete body that fails to parse is
  dropped without a message, and the result is again that of feeding the rest alone: the
  well-formed frames that follow it are all emitted, in order.
\<close>

theorem corruption_contained:
  assumes "indexOf CRLFCRLF (hdr @ CRLFCRLF) = Some (length hdr)"
    and "list_all completeFrame fs"
    and "map (\<lambda>f. jsonParse (snd f)) fs = map Some ms"
  shows "(headerLength hdr = None \<longrightarrow>
            feed jsonParse newParser (hdr @ CRLFCRLF @ rest) = feed jsonParse newParser rest \<and>
            feed jsonParse newParser (hdr @ CRLFCRLF @ concat (map frameBytes fs)) = (ms, newParser)) \<and>
         (headerLength hdr = Some (length body) \<and> jsonParse body = None \<longrightarrow>
            feed jsonParse newParser (hdr @ CRLFCRLF @ body @ rest) = feed jsonParse newParser rest \<and>
            feed jsonParse newParser (hdr @ CRLFCRLF @ body @ concat (map frameBytes fs)) = (ms, newParser))"
proof -
  have frames: "feed jsonParse newParser (concat (map frameBytes fs)) = (ms, newParser)"
    using feed_frames [OF assms(2), of jsonParse] emitted_all [OF assms(3)] by simp
  have bad_header: "feed jsonParse newParser (hdr @ CRLFCRLF @ r) = feed jsonParse newParser r"
    if "headerLength hdr = None" for r
  proof -
    from that have "matchContentLength (toStringAscii hdr) = None"
      by (simp add: headerLength_def)
    then show ?thesis
      using drain_header_bad [OF assms(1), of jsonParse r] by (simp add: feed_newParser)
  qed
  have bad_body: "feed jsonParse newParser (hdr @ CRLFCRLF @ body @ r) = feed jsonParse newParser r"
    if "headerLength hdr = Some (length body)" and "jsonParse body = None" for r
  proof -
    from that(1) have "completeFrame (hdr, body)"
      using assms(1) by (simp add: completeFrame_def)
    then show ?thesis
      using drain_frame [of "(hdr, body)" jsonParse r] that(2)
      by (simp add: feed_newParser frameBytes_def frame_def emitted_def)
  qed
  show ?thesis
    using frames bad_header bad_body by simp
qed

text \<open>
  A header block without a length and then a frame; a frame whose body does not parse and
  then a frame. The parser of this instance accepts the body \<^verbatim>\<open>{}\<close> only.
\<close>

theorem corruption_contained_witness:
  "feed (\<lambda>b. if b = ''{}'' then Some b else None) newParser
     (''Content-Type: x'' @ CRLFCRLF @ ''Content-Length: 2'' @ CRLFCRLF @ ''{}'') =
   ([''{}''], newParser) \<and>
   feed (\<lambda>b. if b = ''{}'' then Some b else None) newParser
     (''Content-Length: 3'' @ CRLFCRLF @ ''{{{'' @ ''Content-Length: 2'' @ CRLFCRLF @ ''{}'') =
   ([''{}''], newParser)"
proof -
  let ?parse = "\<lambda>b :: bytes. if b = ''{}'' then Some b else None"
  let ?fs = "[(''Content-Length: 2'', ''{}'')]"
  have a: "list_all completeFrame ?fs"
    by (simp add: completeFrame_def headerLength_def CRLFCRLF_def toStringAscii_def
        matchHere_def lowerAscii_def isWhite_def isDigit_def parseDigits_def digitVal_def char_of_eq_iff)
  have b: "map (\<lambda>f. ?parse (snd f)) ?fs = map Some [''{}'']" by simp
  have h1: "indexOf CRLFCRLF (''Content-Type: x'' @ CRLFCRLF) = Some (length ''Content-Type: x'')"
    by (simp add: CRLFCRLF_def)
  have n1: "headerLength ''Content-Type: x'' = None"
    by (simp add: headerLength_def toStringAscii_def matchHere_def lowerAscii_def char_of_eq_iff)
  have h2: "indexOf CRLFCRLF (''Content-Length: 3'' @ CRLFCRLF) = Some (length ''Content-Length: 3'')"
    by (simp add: CRLFCRLF_def)
  have n2: "headerLength ''Content-Length: 3'' = Some (length ''{{{'')"
    by (simp add: headerLength_def toStringAscii_def matchHere_def lowerAscii_def isWhite_def
        isDigit_def parseDigits_def digitVal_def char_of_eq_iff)
  show ?thesis
    using corruption_contained [OF h1 a b, where rest = "[]" and body = "[]"]
      corruption_contained [OF h2 a b, where rest = "[]" and body = "''{{{''"]
    by (simp add: n1 n2 frameBytes_def frame_def)
qed

section \<open>Properties of the frame encoder\<close>

text \<open>
  C9. The frame that \<open>encodeMessage\<close> produces declares the number of bytes of its body:
  the first blank line of the frame ends the header \<^verbatim>\<open>Content-Length: n\<close>, the length that
  the parser reads from that header is the length of the UTF-8 bytes of the serialized
  message, and those bytes are all that follows the blank line. The length counts bytes,
  not characters, whatever the text holds.
\<close>

theorem encode_declares_byte_length:
  "\<exists>h. indexOf CRLFCRLF (encodeMessage stringify msg) = Some h \<and>
        take h (encodeMessage stringify msg) =
          CONTENT_LENGTH_HEADER @ decimal (length (utf8Encode (stringify msg))) \<and>
        headerLength (take h (encodeMessage stringify msg)) = Some (length (utf8Encode (stringify msg))) \<and>
        drop (h + 4) (encodeMessage stringify msg) = utf8Encode (stringify msg)"
proof -
  let ?body = "utf8Encode (stringify msg)"
  let ?hdr = "CONTENT_LENGTH_HEADER @ decimal (length ?body)"
  have e: "encodeMessage stringify msg = ?hdr @ CRLFCRLF @ ?body"
    by (simp add: encodeMessage_def Let_def)
  have i: "indexOf CRLFCRLF (?hdr @ CRLFCRLF @ ?body) = Some (length ?hdr)"
    using header_no_CR by (rule indexOf_sep_no_CR)
  have l: "length CRLFCRLF = 4" by (simp add: CRLFCRLF_def)
  show ?thesis
    unfolding e using i l headerLength_encoded [of "length ?body"] by simp
qed

text \<open>
  A body of three characters, the middle one U+00E9, is four bytes long, and 4 is
  declared.
\<close>

lemma encodeMessage_two_byte_character:
  "encodeMessage (\<lambda>m. m) [0x22, 0xE9, 0x22] =
     ''Content-Length: 4'' @ CRLFCRLF @ [CHR 0x22, CHR 0xC3, CHR 0xA9, CHR 0x22]"
proof -
  have "decimal (Suc (Suc (Suc (Suc 0)))) = ''4''"
    by (subst decimal.simps) (simp add: digitChar_def char_of_eq_iff)
  then show ?thesis
    by (simp add: encodeMessage_def CONTENT_LENGTH_HEADER_def isHighSurrogate_def isLowSurrogate_def
        encodeCodePoint_def char_of_eq_iff)
qed

text \<open>
  The frames of the encoder are complete frames for the parser, so that what is encoded
  is read back: whenever \<open>jsonParse\<close> inverts \<open>stringify\<close>, one call of \<open>feed\<close> on the
  encoded messages emits them all.
\<close>

lemma encoded_frame_complete:
  "completeFrame (CONTENT_LENGTH_HEADER @ decimal (length body), body)"
proof -
  have "indexOf CRLFCRLF ((CONTENT_LENGTH_HEADER @ decimal (length body)) @ CRLFCRLF @ []) =
        Some (length (CONTENT_LENGTH_HEADER @ decimal (length body)))"
    using header_no_CR by (rule indexOf_sep_no_CR)
  then show ?thesis
    by (simp add: completeFrame_def headerLength_encoded)
qed

lemma encodeMessage_frame:
  "encodeMessage stringify msg =
     frameBytes (CONTENT_LENGTH_HEADER @ decimal (length (utf8Encode (stringify msg))), utf8Encode (stringify msg))"
  by (simp add: encodeMessage_def frameBytes_def frame_def Let_def)

lemma feed_encoded:
  assumes "\<And>m. jsonParse (utf8Encode (stringify m)) = Some m"
  shows "feed jsonParse newParser (concat (map (encodeMessage stringify) msgs)) = (msgs, newParser)"
proof -
  let ?f = "\<lambda>m. (CONTENT_LENGTH_HEADER @ decimal (length (utf8Encode (stringify m))), utf8Encode (stringify m))"
  have a: "list_all completeFrame (map ?f msgs)"
    by (simp add: list_all_iff encoded_frame_complete)
  have b: "concat (map (\<lambda>f. emitted (jsonParse (snd f))) (map ?f msgs)) = msgs"
    by (induction msgs) (simp_all add: assms emitted_def)
  have c: "map frameBytes (map ?f msgs) = map (encodeMessage stringify) msgs"
    by (simp add: encodeMessage_frame)
  show ?thesis
    using feed_frames [OF a, of jsonParse] unfolding b c .
qed

section \<open>Properties of the configuration\<close>

text \<open>
  The number of an integer below \<open>2^53\<close> is the integer, and \<open>parseInt10\<close> reads a decimal
  numeral as the number of the integer it denotes.
\<close>

lemma bitLength_bound: "n < 2 ^ k \<Longrightarrow> bitLength n \<le> k"
proof (induction k arbitrary: n)
  case 0
  then show ?case by (subst bitLength.simps) simp
next
  case (Suc k)
  show ?case
  proof (cases "n \<le> 0")
    case True
    then show ?thesis by (subst bitLength.simps) simp
  next
    case False
    from Suc.prems have "n div 2 < 2 ^ k" by simp
    then have "bitLength (n div 2) \<le> k" by (rule Suc.IH)
    with False show ?thesis by (subst bitLength.simps) simp
  qed
qed

lemma numberOfInt_exact:
  assumes "0 \<le> n" and "n < 2 ^ 53"
  shows "numberOfInt n = Num (of_int n)"
proof -
  have e: "bitLength n - 53 = 0"
    using bitLength_bound [OF assms(2)] by simp
  have "(2::int) ^ 53 < 2 ^ 1024" by simp
  with assms(2) have "n < 2 ^ 1024" by (rule less_trans)
  then show ?thesis
    by (simp add: numberOfInt_def e)
qed

lemma isDecimalDigit_unat: "isDecimalDigit u = (48 \<le> unat u \<and> unat u \<le> 57)"
  by (simp add: isDecimalDigit_def word_le_nat_alt)

lemma unat_code_unit: "unat (of_nat (of_char c) :: 16 word) = of_char c"
proof -
  have "(of_char c :: nat) mod 256 < 256" by simp
  then have "(of_char c :: nat) < 256" by (simp only: of_char_mod_256)
  then have "(of_char c :: nat) < 2 ^ 16" by (rule less_trans) simp
  then show ?thesis by (simp add: unat_of_nat)
qed

lemma digit_code_unit:
  assumes "isDigit c"
  shows "isDecimalDigit (of_nat (of_char c))"
    and "\<not> isStrWhiteSpace (of_nat (of_char c))"
    and "(of_nat (of_char c) :: 16 word) \<noteq> 0x2B"
    and "(of_nat (of_char c) :: 16 word) \<noteq> 0x2D"
    and "uint (of_nat (of_char c) :: 16 word) - 0x30 = int (digitVal c)"
proof -
  let ?u = "of_nat (of_char c) :: 16 word"
  have u: "unat ?u = of_char c" by (rule unat_code_unit)
  have r: "48 \<le> unat ?u" "unat ?u \<le> 57"
    using assms by (simp_all add: u isDigit_def)
  show "isDecimalDigit ?u" using r by (simp add: isDecimalDigit_unat)
  show "\<not> isStrWhiteSpace ?u"
  proof
    assume "isStrWhiteSpace ?u"
    then have "unat ?u \<in> {9, 10, 11, 12, 13, 32, 160, 5760, 8232, 8233, 8239, 8287, 12288, 65279} \<or>
               8192 \<le> unat ?u"
      unfolding isStrWhiteSpace_def by (auto simp: word_le_nat_alt)
    with r show False by auto
  qed
  show "?u \<noteq> 0x2B"
  proof
    assume "?u = 0x2B"
    then have "unat ?u = 43" by simp
    with r show False by simp
  qed
  show "?u \<noteq> 0x2D"
  proof
    assume "?u = 0x2D"
    then have "unat ?u = 45" by simp
    with r show False by simp
  qed
  have "uint ?u = int (unat ?u)" by simp
  then show "uint ?u - 0x30 = int (digitVal c)"
    using r by (simp add: u digitVal_def)
qed

lemma digitsValue_snoc: "digitsValue (us @ [u]) = 10 * digitsValue us + (uint u - 0x30)"
  by (simp add: digitsValue_def)

lemma digitsValue_str:
  "(\<And>c. c \<in> set ds \<Longrightarrow> isDigit c) \<Longrightarrow> digitsValue (str ds) = int (parseDigits ds)"
proof (induction ds rule: rev_induct)
  case Nil
  show ?case by (simp add: digitsValue_def parseDigits_def str_def)
next
  case (snoc c cs)
  then have ih: "digitsValue (str cs) = int (parseDigits cs)" and c: "isDigit c"
    by simp_all
  have "str (cs @ [c]) = str cs @ [of_nat (of_char c)]" by (simp add: str_def)
  then show ?case
    by (simp add: digitsValue_snoc parseDigits_snoc ih digit_code_unit(5) [OF c])
qed

lemma takeWhile_str_digits:
  "(\<And>c. c \<in> set ds \<Longrightarrow> isDigit c) \<Longrightarrow> takeWhile isDecimalDigit (str ds) = str ds"
  by (simp add: str_def digit_code_unit(1) takeWhile_eq_all_conv [THEN iffD2])

lemma parseInt10_decimal: "parseInt10 (str (decimal n)) = numberOfInt (int n)"
proof -
  obtain c cs where d: "decimal n = c # cs"
    using decimal_not_Nil [of n] by (cases "decimal n") auto
  have digits: "\<And>x. x \<in> set (c # cs) \<Longrightarrow> isDigit x"
    using decimal_digits [of _ n] by (simp add: d)
  have c: "isDigit c" using digits by simp
  have s: "str (c # cs) = of_nat (of_char c) # str cs" by (simp add: str_def)
  have w: "dropWhile isStrWhiteSpace (str (c # cs)) = str (c # cs)"
    by (simp add: s digit_code_unit(2) [OF c])
  have t: "takeWhile isDecimalDigit (str (c # cs)) = str (c # cs)"
    using digits by (rule takeWhile_str_digits)
  have v: "digitsValue (str (c # cs)) = int n"
    using digitsValue_str [of "c # cs"] digits parseDigits_decimal [of n] by (simp add: d)
  have "parseInt10 (str (c # cs)) = numberOfInt (digitsValue (str (c # cs)))"
    unfolding parseInt10_def w
    using t by (simp add: s digit_code_unit(3,4) [OF c])
  then show ?thesis by (simp add: d v)
qed

lemma parseInt10_minus_decimal:
  "parseInt10 (str (CHR ''-'' # decimal n)) = negateNumber (numberOfInt (int n))"
proof -
  have digits: "\<And>x. x \<in> set (decimal n) \<Longrightarrow> isDigit x"
    by (rule decimal_digits)
  have s: "str (CHR ''-'' # decimal n) = 0x2D # str (decimal n)" by (simp add: str_def)
  have m: "\<not> isStrWhiteSpace (0x2D :: 16 word)" by (simp add: isStrWhiteSpace_def)
  have t: "takeWhile isDecimalDigit (str (decimal n)) = str (decimal n)"
    using digits by (rule takeWhile_str_digits)
  have ne: "str (decimal n) \<noteq> []" by (simp add: str_def decimal_not_Nil)
  have v: "digitsValue (str (decimal n)) = int n"
    using digitsValue_str [of "decimal n"] digits parseDigits_decimal [of n] by simp
  show ?thesis
    unfolding parseInt10_def s using m by (simp add: t ne v)
qed

text \<open>
  C8, as stated, fails at the empty string: the variable is present, \<^verbatim>\<open>parseInt\<close> reads
  \<open>NaN\<close> from its value, and the threshold is 1, as \<^verbatim>\<open>||\<close> takes the default for the empty
  string too.
\<close>

theorem min_severity_empty_value_counterexample:
  "minSeverityEnv [] ''STAY_FRESH_MIN_SEVERITY'' = Some [] \<and>
   parseInt10 [] = NaN \<and>
   minSeverity (resolveConfig (minSeverityEnv [])) = Num 1"
proof -
  have "parseInt10 (str ''1'') = Num 1" by code_simp
  then show ?thesis
    by (simp add: minSeverityEnv_def resolveConfig_def parseInt10_def)
qed

text \<open>
  C8, amended. The minimum severity is 1 when the variable is absent or empty, and for
  every other value it is the number that \<^verbatim>\<open>parseInt(value, 10)\<close> reads, as it is. No
  range is checked: a decimal numeral of any size, with or without a minus sign, yields the
  JavaScript number of its integer, which is the integer itself below \<open>2^53\<close>, the nearest
  double above, and infinite beyond the doubles. A value without a leading integer gives
  \<open>NaN\<close>.
\<close>

theorem min_severity_resolution:
  "(env ''STAY_FRESH_MIN_SEVERITY'' = None \<or> env ''STAY_FRESH_MIN_SEVERITY'' = Some [] \<longrightarrow>
      minSeverity (resolveConfig env) = Num 1) \<and>
   (env ''STAY_FRESH_MIN_SEVERITY'' = Some s \<and> s \<noteq> [] \<longrightarrow>
      minSeverity (resolveConfig env) = parseInt10 s) \<and>
   (env ''STAY_FRESH_MIN_SEVERITY'' = Some (str (decimal n)) \<longrightarrow>
      minSeverity (resolveConfig env) = numberOfInt (int n)) \<and>
   (env ''STAY_FRESH_MIN_SEVERITY'' = Some (str (CHR ''-'' # decimal n)) \<longrightarrow>
      minSeverity (resolveConfig env) = negateNumber (numberOfInt (int n))) \<and>
   (n < 2 ^ 53 \<longrightarrow> numberOfInt (int n) = Num (of_nat n))"
proof -
  have one: "parseInt10 (str ''1'') = Num 1" by code_simp
  have ne: "str (decimal n) \<noteq> []" by (simp add: str_def decimal_not_Nil)
  have a: "env ''STAY_FRESH_MIN_SEVERITY'' = None \<or> env ''STAY_FRESH_MIN_SEVERITY'' = Some [] \<longrightarrow>
           minSeverity (resolveConfig env) = Num 1"
    by (auto simp: resolveConfig_def one)
  have b: "env ''STAY_FRESH_MIN_SEVERITY'' = Some s \<and> s \<noteq> [] \<longrightarrow>
           minSeverity (resolveConfig env) = parseInt10 s"
    by (auto simp: resolveConfig_def)
  have c: "env ''STAY_FRESH_MIN_SEVERITY'' = Some (str (decimal n)) \<longrightarrow>
           minSeverity (resolveConfig env) = numberOfInt (int n)"
    using ne by (auto simp: resolveConfig_def parseInt10_decimal)
  have d: "env ''STAY_FRESH_MIN_SEVERITY'' = Some (str (CHR ''-'' # decimal n)) \<longrightarrow>
           minSeverity (resolveConfig env) = negateNumber (numberOfInt (int n))"
    by (auto simp: resolveConfig_def parseInt10_minus_decimal) (simp add: str_def)
  have e: "n < 2 ^ 53 \<longrightarrow> numberOfInt (int n) = Num (of_nat n)"
  proof
    assume "n < 2 ^ 53"
    then have "int n < int (2 ^ 53)" by (simp only: of_nat_less_iff)
    then have "int n < 2 ^ 53" by simp
    then show "numberOfInt (int n) = Num (of_nat n)"
      using numberOfInt_exact [of "int n"] by simp
  qed
  show ?thesis using a b c d e by blast
qed

text \<open>
  No variable set; the empty string; a severity in range; integers out of range, one
  negative, one that is rounded to a double, one of 310 digits; a word.
\<close>

theorem min_severity_resolution_witness:
  "minSeverity (resolveConfig Map.empty) = Num 1 \<and>
   minSeverity (resolveConfig (minSeverityEnv [])) = Num 1 \<and>
   minSeverity (resolveConfig (minSeverityEnv (str ''3''))) = Num 3 \<and>
   minSeverity (resolveConfig (minSeverityEnv (str ''-7''))) = Num (- 7) \<and>
   minSeverity (resolveConfig (minSeverityEnv (str ''99''))) = Num 99 \<and>
   minSeverity (resolveConfig (minSeverityEnv (str ''9007199254740995''))) = Num 9007199254740996 \<and>
   minSeverity (resolveConfig (minSeverityEnv (str (CHR ''1'' # replicate 309 (CHR ''0''))))) = PosInf \<and>
   minSeverity (resolveConfig (minSeverityEnv (str ''high''))) = NaN"
proof -
  have d: "decimal 3 = ''3''" "decimal 7 = ''7''" "decimal 99 = ''99''"
    by code_simp+
  have p: "parseInt10 (str ''9007199254740995'') = Num 9007199254740996"
    "parseInt10 (str (CHR ''1'' # replicate 309 (CHR ''0''))) = PosInf"
    "parseInt10 (str ''high'') = NaN"
    by code_simp+
  have n: "str ''9007199254740995'' \<noteq> []" "str (CHR ''1'' # replicate 309 (CHR ''0'')) \<noteq> []"
    "str ''high'' \<noteq> []"
    by (simp_all add: str_def)
  show ?thesis
    using min_severity_resolution [of Map.empty "[]" 0]
      min_severity_resolution [of "minSeverityEnv []" "[]" 0]
      min_severity_resolution [of "minSeverityEnv (str ''3'')" "str ''3''" 3]
      min_severity_resolution [of "minSeverityEnv (str ''-7'')" "str ''-7''" 7]
      min_severity_resolution [of "minSeverityEnv (str ''99'')" "str ''99''" 99]
      min_severity_resolution [of "minSeverityEnv (str ''9007199254740995'')" "str ''9007199254740995''" 0]
      min_severity_resolution [of "minSeverityEnv (str (CHR ''1'' # replicate 309 (CHR ''0'')))"
        "str (CHR ''1'' # replicate 309 (CHR ''0''))" 0]
      min_severity_resolution [of "minSeverityEnv (str ''high'')" "str ''high''" 0]
    by (simp add: d p n minSeverityEnv_def)
qed

section \<open>Properties of the diagnostic filter\<close>

lemma map_of_setProp: "map_of (setProp k v ps) = (map_of ps)(k \<mapsto> v)"
  by (induction ps) (auto simp: fun_eq_iff)

lemma keepDiagnostic_typed:
  "severityTyped d \<Longrightarrow> keepDiagnostic toNumber t d = Inr (numLE (severityOf d) t)"
  by (cases d) (auto simp: severityTyped_def severityOf_def split: option.splits json.splits)

lemma arrayFilter_total:
  "(\<And>x. x \<in> set xs \<Longrightarrow> f x = Inr (P x)) \<Longrightarrow> arrayFilter f xs = Inr (filter P xs)"
  by (induction xs) simp_all

lemma filter_typed:
  assumes "\<not> dropAll config" and "isPublishDiagnostics msg" and "diagnosticsOf msg = Some ds"
    and "list_all severityTyped ds" and "templateString (uriOf msg) = Inr ()"
  shows "filterDiagnostics toNumber config msg =
           Inr (Some (withDiagnostics msg (filter (\<lambda>d. numLE (severityOf d) (minSeverity config)) ds)))"
proof -
  from assms(2) obtain kvs where msg: "msg = JObj kvs"
    and m: "map_of kvs (str ''method'') = Some (JStr PUBLISH_DIAGNOSTICS)"
    by (cases msg) (simp_all add: isPublishDiagnostics_def)
  from assms(3) msg obtain ps where p: "map_of kvs (str ''params'') = Some (JObj ps)"
    and d: "map_of ps (str ''diagnostics'') = Some (JArr ds)"
    by (auto simp: diagnosticsOf_def paramsOf_def split: option.splits json.splits)
  have u: "templateString (map_of ps (str ''uri'')) = Inr ()"
    using assms(5) msg p by (simp add: uriOf_def paramsOf_def)
  have f: "arrayFilter (keepDiagnostic toNumber (minSeverity config)) ds =
           Inr (filter (\<lambda>d. numLE (severityOf d) (minSeverity config)) ds)"
    using assms(4) by (intro arrayFilter_total keepDiagnostic_typed) (simp add: list_all_iff)
  show ?thesis
    using assms(1) by (simp add: msg m p d u f withDiagnostics_def paramsOf_def)
qed

lemma diagnosticsOf_withDiagnostics:
  "isPublishDiagnostics msg \<Longrightarrow> diagnosticsOf (withDiagnostics msg ds) = Some ds"
  by (cases msg) (simp_all add: isPublishDiagnostics_def diagnosticsOf_def paramsOf_def
      withDiagnostics_def map_of_setProp)

lemma uriOf_withDiagnostics:
  "diagnosticsOf msg = Some ds \<Longrightarrow> uriOf (withDiagnostics msg ds') = uriOf msg"
  by (cases msg) (auto simp: diagnosticsOf_def uriOf_def paramsOf_def withDiagnostics_def map_of_setProp str_def
      split: option.splits json.splits)

text \<open>
  C5. Identity on the other methods: a message that is not a publish-diagnostics
  notification is returned as it is, whatever the configuration. (A message is not
  \<^verbatim>\<open>null\<close>: on \<^verbatim>\<open>null\<close> the read of \<^verbatim>\<open>msg.method\<close> throws.)
\<close>

theorem identity_on_other_methods:
  assumes "msg \<noteq> JNull" and "\<not> isPublishDiagnostics msg"
  shows "filterDiagnostics toNumber config msg = Inr (Some msg)"
  using assms by (cases msg) (simp_all add: isPublishDiagnostics_def)

text \<open>
  A message with the method \<^verbatim>\<open>foo\<close> under the default configuration, which drops all
  diagnostics.
\<close>

theorem identity_on_other_methods_witness:
  "filterDiagnostics throwingToNumber (resolveConfig Map.empty)
     (JObj [(str ''jsonrpc'', JStr (str ''2.0'')), (str ''method'', JStr (str ''foo''))]) =
   Inr (Some (JObj [(str ''jsonrpc'', JStr (str ''2.0'')), (str ''method'', JStr (str ''foo''))]))"
  using identity_on_other_methods [of "JObj [(str ''jsonrpc'', JStr (str ''2.0'')), (str ''method'', JStr (str ''foo''))]"
      throwingToNumber "resolveConfig Map.empty"]
  by (simp add: sample_defs)

lemma filterDiagnostics_null: "filterDiagnostics toNumber config JNull = Inl TypeError"
  by simp

text \<open>
  C2. Drop-all: when the flag is set, no publish-diagnostics message is ever forwarded,
  whatever its diagnostics are (none, an empty sequence, any content), and the filter
  returns \<^verbatim>\<open>null\<close> for every message whose \<^verbatim>\<open>uri\<close> the log line can hold: every string,
  as \<^verbatim>\<open>interface PublishDiagnosticsParams\<close> declares it, and every other value that a
  template literal can convert.
\<close>

theorem drop_all_suppresses:
  assumes "dropAll config" and "isPublishDiagnostics msg"
  shows "(templateString (uriOf msg) = Inr () \<longrightarrow> filterDiagnostics toNumber config msg = Inr None) \<and>
         filterDiagnostics toNumber config msg \<noteq> Inr (Some forwarded)"
proof -
  from assms(2) obtain kvs where msg: "msg = JObj kvs"
    and m: "map_of kvs (str ''method'') = Some (JStr PUBLISH_DIAGNOSTICS)"
    by (cases msg) (simp_all add: isPublishDiagnostics_def)
  have u: "uriOf (JObj kvs) = (case map_of kvs (str ''params'') of Some (JObj params) \<Rightarrow> map_of params (str ''uri'') | _ \<Rightarrow> None)"
    by (simp add: uriOf_def paramsOf_def split: option.splits json.splits)
  have "filterDiagnostics toNumber config msg =
          (case templateString (uriOf msg) of Inl e \<Rightarrow> Inl e | Inr _ \<Rightarrow> Inr None)"
    using assms(1) by (simp add: msg m u)
  then show ?thesis
    by (simp split: sum.splits)
qed

text \<open>
  The default of the flag is on. A notification with no diagnostics and one with two are
  both suppressed.
\<close>

theorem drop_all_suppresses_witness:
  "filterDiagnostics throwingToNumber (sampleConfig True (Num 1)) (publish []) = Inr None \<and>
   filterDiagnostics throwingToNumber (sampleConfig True (Num 1)) (publish [diagnostic 1, diagnostic 4]) = Inr None"
  using drop_all_suppresses [of "sampleConfig True (Num 1)" "publish []" throwingToNumber]
    drop_all_suppresses [of "sampleConfig True (Num 1)" "publish [diagnostic 1, diagnostic 4]" throwingToNumber]
  by (simp add: sample_defs)

text \<open>
  The one case left out: the template literal of the log line throws on such an object,
  before \<^verbatim>\<open>null\<close> is returned.
\<close>

lemma drop_all_uri_without_string:
  "filterDiagnostics toNumber (sampleConfig True (Num 1))
     (JObj [(str ''method'', JStr PUBLISH_DIAGNOSTICS),
            (str ''params'', JObj [(str ''uri'', JObj [(str ''toString'', JNum (Num 1))])])]) =
   Inl TypeError"
  by (simp add: sample_defs)

text \<open>
  C3. Severity threshold: when drop-all is off, a publish-diagnostics message with
  diagnostics \<open>ds\<close> is forwarded with exactly those of \<open>ds\<close> whose severity is at most the
  threshold, a missing severity counting as 1, in their original order; nothing else of
  the message changes. The message is one of the declared type: its diagnostics are an
  array of diagnostics with numeric or missing severity, and its \<^verbatim>\<open>uri\<close> can be logged.
\<close>

theorem severity_threshold:
  assumes "\<not> dropAll config" and "isPublishDiagnostics msg" and "diagnosticsOf msg = Some ds"
    and "list_all severityTyped ds" and "templateString (uriOf msg) = Inr ()"
  shows "filterDiagnostics toNumber config msg =
           Inr (Some (withDiagnostics msg (filter (\<lambda>d. numLE (severityOf d) (minSeverity config)) ds))) \<and>
         diagnosticsOf (withDiagnostics msg (filter (\<lambda>d. numLE (severityOf d) (minSeverity config)) ds)) =
           Some (filter (\<lambda>d. numLE (severityOf d) (minSeverity config)) ds)"
  using filter_typed [OF assms] diagnosticsOf_withDiagnostics [OF assms(2)] by simp

text \<open>
  Severities 1 and 4 under the threshold 1: the diagnostic of severity 1 alone is kept.
\<close>

theorem severity_threshold_witness:
  "filterDiagnostics throwingToNumber (sampleConfig False (Num 1)) (publish [diagnostic 1, diagnostic 4]) =
     Inr (Some (publish [diagnostic 1]))"
  using severity_threshold [of "sampleConfig False (Num 1)" "publish [diagnostic 1, diagnostic 4]"
      "[diagnostic 1, diagnostic 4]" throwingToNumber]
  by (simp add: sample_defs)

text \<open>
  C4. Empty result: when drop-all is off and no diagnostic of the message passes the
  threshold, the filter still returns a message, with the same \<^verbatim>\<open>uri\<close> and an empty
  sequence of diagnostics; and when drop-all is off the filter returns \<^verbatim>\<open>null\<close> for no
  message at all.
\<close>

theorem empty_result_forwarded:
  assumes "\<not> dropAll config" and "isPublishDiagnostics msg" and "diagnosticsOf msg = Some ds"
    and "list_all severityTyped ds" and "templateString (uriOf msg) = Inr ()"
    and "\<forall>d \<in> set ds. \<not> numLE (severityOf d) (minSeverity config)"
  shows "filterDiagnostics toNumber config msg = Inr (Some (withDiagnostics msg [])) \<and>
         diagnosticsOf (withDiagnostics msg []) = Some [] \<and>
         uriOf (withDiagnostics msg []) = uriOf msg \<and>
         filterDiagnostics toNumber config other \<noteq> Inr None"
proof -
  have e: "filter (\<lambda>d. numLE (severityOf d) (minSeverity config)) ds = []"
    using assms(6) by (simp add: filter_empty_conv)
  have n: "filterDiagnostics toNumber config other \<noteq> Inr None"
    using assms(1)
    by (cases other) (auto split: option.splits json.splits sum.splits)
  show ?thesis
    using filter_typed [OF assms(1-5), of toNumber] diagnosticsOf_withDiagnostics [OF assms(2), of "[]"]
      uriOf_withDiagnostics [OF assms(3), of "[]"] n
    by (simp add: e)
qed

text \<open>
  All diagnostics above the threshold; a threshold that is \<open>NaN\<close>; no diagnostics at all.
\<close>

theorem empty_result_forwarded_witness:
  "filterDiagnostics throwingToNumber (sampleConfig False (Num 1)) (publish [diagnostic 4, diagnostic 2]) =
     Inr (Some (publish [])) \<and>
   filterDiagnostics throwingToNumber (sampleConfig False NaN) (publish [diagnostic 1]) = Inr (Some (publish [])) \<and>
   filterDiagnostics throwingToNumber (sampleConfig False (Num 1)) (publish []) = Inr (Some (publish []))"
  using empty_result_forwarded [of "sampleConfig False (Num 1)" "publish [diagnostic 4, diagnostic 2]"
      "[diagnostic 4, diagnostic 2]" throwingToNumber]
    empty_result_forwarded [of "sampleConfig False NaN" "publish [diagnostic 1]" "[diagnostic 1]" throwingToNumber]
    empty_result_forwarded [of "sampleConfig False (Num 1)" "publish []" "[]" throwingToNumber]
  by (simp add: sample_defs)

text \<open>
  C10. The filter is not total: when drop-all is off, a publish-diagnostics message whose
  \<^verbatim>\<open>params\<close> is absent, or is not an object with an array \<^verbatim>\<open>diagnostics\<close>, makes the
  unchecked \<^verbatim>\<open>params.diagnostics.filter\<close> throw a TypeError: the filter returns neither a
  message nor \<^verbatim>\<open>null\<close>. So it returns only for messages that carry an array of
  diagnostics.
\<close>

theorem unchecked_dereference:
  assumes "\<not> dropAll config" and "isPublishDiagnostics msg" and "diagnosticsOf msg = None"
  shows "filterDiagnostics toNumber config msg = Inl TypeError"
proof -
  from assms(2) obtain kvs where msg: "msg = JObj kvs"
    and m: "map_of kvs (str ''method'') = Some (JStr PUBLISH_DIAGNOSTICS)"
    by (cases msg) (simp_all add: isPublishDiagnostics_def)
  show ?thesis
    using assms(1,3) unfolding msg
    by (auto simp: m diagnosticsOf_def paramsOf_def split: option.splits json.splits)
qed

text \<open>
  No \<^verbatim>\<open>params\<close>; \<^verbatim>\<open>params\<close> without \<^verbatim>\<open>diagnostics\<close>; \<^verbatim>\<open>diagnostics\<close> that is a string.
\<close>

theorem unchecked_dereference_witness:
  "filterDiagnostics throwingToNumber (sampleConfig False (Num 1))
     (JObj [(str ''method'', JStr PUBLISH_DIAGNOSTICS)]) = Inl TypeError \<and>
   filterDiagnostics throwingToNumber (sampleConfig False (Num 1))
     (JObj [(str ''method'', JStr PUBLISH_DIAGNOSTICS),
            (str ''params'', JObj [(str ''uri'', JStr (str ''file:///a.ts''))])]) = Inl TypeError \<and>
   filterDiagnostics throwingToNumber (sampleConfig False (Num 1))
     (JObj [(str ''method'', JStr PUBLISH_DIAGNOSTICS),
            (str ''params'', JObj [(str ''diagnostics'', JStr (str ''none''))])]) = Inl TypeError"
  using unchecked_dereference [of "sampleConfig False (Num 1)" "JObj [(str ''method'', JStr PUBLISH_DIAGNOSTICS)]" throwingToNumber]
    unchecked_dereference [of "sampleConfig False (Num 1)"
      "JObj [(str ''method'', JStr PUBLISH_DIAGNOSTICS),
             (str ''params'', JObj [(str ''uri'', JStr (str ''file:///a.ts''))])]" throwingToNumber]
    unchecked_dereference [of "sampleConfig False (Num 1)"
      "JObj [(str ''method'', JStr PUBLISH_DIAGNOSTICS),
             (str ''params'', JObj [(str ''diagnostics'', JStr (str ''none''))])]" throwingToNumber]
  by (simp add: sample_defs)

end
